theory Spec2Isabelle
  imports Main
begin

section \<open>Python strings and values\<close>

text \<open>
  A Python \<open>str\<close> is a sequence of Unicode code points and \<open>len\<close> counts code
  points, so a string is modelled as a list of code points (natural numbers).
  ASCII literals of the source are written through \<open>ascii\<close>.
\<close>

type_synonym ustr = "nat list"

definition ascii :: "string \<Rightarrow> ustr" where
  "ascii s = map of_char s"

text \<open>
  \<open>str.strip()\<close> without argument removes the characters for which
  \<open>str.isspace\<close> holds: U+0009..U+000D, U+001C..U+001F, U+0020, U+0085, U+00A0,
  U+1680, U+2000..U+200A, U+2028, U+2029, U+202F, U+205F, U+3000.
\<close>

definition is_space :: "nat \<Rightarrow> bool" where
  "is_space c \<longleftrightarrow>
     (9 \<le> c \<and> c \<le> 13) \<or> (28 \<le> c \<and> c \<le> 31) \<or> c = 32 \<or> c = 133 \<or> c = 160 \<or>
     c = 5760 \<or> (8192 \<le> c \<and> c \<le> 8202) \<or> c = 8232 \<or> c = 8233 \<or> c = 8239 \<or>
     c = 8287 \<or> c = 12288"

definition strip :: "ustr \<Rightarrow> ustr" where
  "strip s = rev (dropWhile is_space (rev (dropWhile is_space s)))"

text \<open>
  \<open>str.splitlines()\<close> breaks at \<open>\n\<close>, \<open>\v\<close>, \<open>\f\<close>, \<open>\r\<close>, \<open>\r\n\<close>
  (one boundary), U+001C, U+001D, U+001E, U+0085, U+2028 and U+2029; the line ends
  are dropped, and no empty last line is produced after a final boundary.
\<close>

definition is_linebreak :: "nat \<Rightarrow> bool" where
  "is_linebreak c \<longleftrightarrow>
     c = 10 \<or> c = 11 \<or> c = 12 \<or> c = 13 \<or> c = 28 \<or> c = 29 \<or> c = 30 \<or> c = 133 \<or>
     c = 8232 \<or> c = 8233"

text \<open>\<open>splitlines_from cur s\<close>: \<open>cur\<close> is the part of the current line already read.\<close>

fun splitlines_from :: "ustr \<Rightarrow> ustr \<Rightarrow> ustr list" where
  "splitlines_from cur [] = (if cur = [] then [] else [cur])"
| "splitlines_from cur [c] =
     (if is_linebreak c then [cur] else [cur @ [c]])"
| "splitlines_from cur (c # d # rest) =
     (if is_linebreak c then
        (if c = 13 \<and> d = 10 then cur # splitlines_from [] rest
         else cur # splitlines_from [] (d # rest))
      else splitlines_from (cur @ [c]) (d # rest))"

definition splitlines :: "ustr \<Rightarrow> ustr list" where
  "splitlines s = splitlines_from [] s"

text \<open>\<open>sep.join(xs)\<close>\<close>

fun join :: "ustr \<Rightarrow> ustr list \<Rightarrow> ustr" where
  "join sep [] = []"
| "join sep [x] = x"
| "join sep (x # y # ys) = x @ sep @ join sep (y # ys)"

text \<open>
  The values \<open>translate_text\<close> is called with: it tests its argument for truth and
  converts it with \<open>str()\<close>, so it accepts more than strings. Floats are left out.
\<close>

datatype pyval = PNone | PBool bool | PInt int | PStr ustr

fun truthy :: "pyval \<Rightarrow> bool" where
  "truthy PNone = False"
| "truthy (PBool b) = b"
| "truthy (PInt i) = (i \<noteq> 0)"
| "truthy (PStr s) = (s \<noteq> [])"

fun digits :: "nat \<Rightarrow> ustr" where
  "digits n = (if n < 10 then [48 + n] else digits (n div 10) @ [48 + n mod 10])"

declare digits.simps [simp del]

fun py_str :: "pyval \<Rightarrow> ustr" where
  "py_str PNone = ascii ''None''"
| "py_str (PBool b) = (if b then ascii ''True'' else ascii ''False'')"
| "py_str (PInt i) = (if i < 0 then 45 # digits (nat (- i)) else digits (nat i))"
| "py_str (PStr s) = s"

fun isinstance_str :: "pyval \<Rightarrow> bool" where
  "isinstance_str (PStr s) = True"
| "isinstance_str _ = False"

section \<open>The translation backend\<close>

text \<open>
  \<open>translator\<close> is the pipeline of the \<open>transformers\<close> library, a parameter of the
  model. It is called with the list of chunks and \<open>max_length\<close>, and either raises
  an exception (\<open>Inl e\<close>, with \<open>e\<close> the text \<open>str()\<close> gives for the exception) or
  returns a list of results, each with a field \<open>translation_text\<close>.
\<close>

record result =
  translation_text :: ustr

type_synonym backend = "ustr list \<Rightarrow> nat \<Rightarrow> ustr + result list"

section \<open>translate_text\<close>

definition max_chunk_length :: nat where
  "max_chunk_length = 450"

text \<open>
  The loop over the lines (lines 28 to 34): the state is \<open>chunks\<close> and
  \<open>current_chunk\<close>.
\<close>

fun chunk_loop :: "ustr list \<Rightarrow> ustr \<Rightarrow> ustr list \<Rightarrow> ustr list \<times> ustr" where
  "chunk_loop chunks current_chunk [] = (chunks, current_chunk)"
| "chunk_loop chunks current_chunk (line # lines) =
     (if length current_chunk + length line + 1 > max_chunk_length then
        chunk_loop (if current_chunk \<noteq> [] then chunks @ [strip current_chunk] else chunks)
          line lines
      else chunk_loop chunks (current_chunk @ [32] @ line) lines)"

text \<open>Lines 25 to 36: the loop, then the last flush.\<close>

definition chunk_text :: "ustr \<Rightarrow> ustr list" where
  "chunk_text text =
     (case chunk_loop [] [] (splitlines text) of
        (chunks, current_chunk) \<Rightarrow>
          if current_chunk \<noteq> [] then chunks @ [strip current_chunk] else chunks)"

text \<open>Lines 38 to 42: the call of the backend, and the handler of its exceptions.\<close>

definition translate_batch :: "backend \<Rightarrow> ustr list \<Rightarrow> ustr list" where
  "translate_batch translator chunks =
     (case translator chunks 512 of
        Inr results \<Rightarrow> map translation_text results
      | Inl e \<Rightarrow> [ascii ''[Translation error: '' @ e @ ascii '']''])"

definition reassemble :: "ustr list \<Rightarrow> ustr" where
  "reassemble translations = join [10, 10] translations"

text \<open>
  \<open>translate_text\<close> returns its value together with the batches it has passed to the
  backend, in order (none, or one).
\<close>

definition translate_text :: "backend \<Rightarrow> pyval \<Rightarrow> pyval \<times> ustr list list" where
  "translate_text translator text =
     (if \<not> truthy text \<or> strip (py_str text) = [] then (text, [])
      else
        let chunks = chunk_text (py_str text)
        in (PStr (reassemble (translate_batch translator chunks)), [chunks]))"

section \<open>Spreadsheets\<close>

text \<open>
  Line 105: the function applied to every cell, and \<open>applymap\<close> over a frame given
  as its rows.
\<close>

definition translate_cell :: "backend \<Rightarrow> pyval \<Rightarrow> pyval \<times> ustr list list" where
  "translate_cell translator x =
     (if isinstance_str x \<and> strip (py_str x) \<noteq> [] then translate_text translator (PStr (py_str x))
      else (x, []))"

definition applymap :: "(pyval \<Rightarrow> pyval) \<Rightarrow> pyval list list \<Rightarrow> pyval list list" where
  "applymap f df = map (map f) df"

section \<open>Backends used to run the model\<close>

text \<open>A backend that succeeds and translates every chunk with \<open>f\<close>.\<close>

definition chunkwise :: "(ustr \<Rightarrow> ustr) \<Rightarrow> backend" where
  "chunkwise f chunks max_length = Inr (map (\<lambda>c. \<lparr>translation_text = f c\<rparr>) chunks)"

definition failing :: "ustr \<Rightarrow> backend" where
  "failing e chunks max_length = Inl e"

definition stub :: "ustr \<Rightarrow> ustr" where
  "stub c = (if c = ascii ''Hola'' then ascii ''Hello''
             else if c = ascii ''mundo'' then ascii ''world'' else c)"

definition nonws :: "ustr \<Rightarrow> ustr" where
  "nonws s = filter (\<lambda>c. \<not> is_space c) s"

section \<open>Facts about the string operations\<close>

lemma strip_Nil: "strip [] = []"
  by (simp add: strip_def)

lemma length_strip: "length (strip s) \<le> length s"
proof -
  have "length (strip s) \<le> length (dropWhile is_space s)"
    unfolding strip_def using length_dropWhile_le [of is_space "rev (dropWhile is_space s)"] by simp
  also have "\<dots> \<le> length s" by (rule length_dropWhile_le)
  finally show ?thesis .
qed

lemma all_dropWhile: "(\<forall>x\<in>set (dropWhile P xs). P x) \<longleftrightarrow> (\<forall>x\<in>set xs. P x)"
  by (induction xs) auto

lemma strip_eq_Nil_iff: "strip s = [] \<longleftrightarrow> (\<forall>c\<in>set s. is_space c)"
proof -
  have "strip s = [] \<longleftrightarrow> (\<forall>c\<in>set (rev (dropWhile is_space s)). is_space c)"
    unfolding strip_def by (simp add: dropWhile_eq_Nil_conv)
  also have "\<dots> \<longleftrightarrow> (\<forall>c\<in>set s. is_space c)"
    by (simp add: all_dropWhile)
  finally show ?thesis .
qed

lemma filter_dropWhile: "(\<And>x. Q x \<Longrightarrow> \<not> P x) \<Longrightarrow> filter P (dropWhile Q xs) = filter P xs"
  by (induction xs) auto

lemma nonws_dropWhile: "nonws (dropWhile is_space s) = nonws s"
  unfolding nonws_def by (rule filter_dropWhile) simp

lemma nonws_rev: "nonws (rev s) = rev (nonws s)"
  by (simp add: nonws_def rev_filter)

lemma nonws_strip: "nonws (strip s) = nonws s"
  by (simp add: strip_def nonws_rev nonws_dropWhile)

lemma strip_space_Cons: "is_space c \<Longrightarrow> strip (c # s) = strip s"
  by (simp add: strip_def)

lemma strip_trimmed: "s \<noteq> [] \<Longrightarrow> \<not> is_space (hd s) \<Longrightarrow> \<not> is_space (last s) \<Longrightarrow> strip s = s"
proof -
  assume a: "s \<noteq> []" "\<not> is_space (hd s)" "\<not> is_space (last s)"
  then have "dropWhile is_space s = s" by (cases s) auto
  moreover from a have "dropWhile is_space (rev s) = rev s" by (cases "rev s") (auto simp: hd_rev)
  ultimately show ?thesis by (simp add: strip_def)
qed

lemma splitlines_from_Cons:
  "splitlines_from cur (c # s) =
     (if is_linebreak c then
        (if c = 13 \<and> s \<noteq> [] \<and> hd s = 10 then cur # splitlines_from [] (tl s)
         else cur # splitlines_from [] s)
      else splitlines_from (cur @ [c]) s)"
  by (cases s) auto

lemma splitlines_from_nobreak_append:
  "\<forall>c\<in>set xs. \<not> is_linebreak c \<Longrightarrow> splitlines_from cur (xs @ ys) = splitlines_from (cur @ xs) ys"
proof (induction xs arbitrary: cur)
  case Nil
  then show ?case by simp
next
  case (Cons x xs)
  then show ?case by (simp add: splitlines_from_Cons del: splitlines_from.simps)
qed

lemma splitlines_from_nobreak:
  "\<forall>c\<in>set s. \<not> is_linebreak c \<Longrightarrow>
     splitlines_from cur s = (if cur @ s = [] then [] else [cur @ s])"
  using splitlines_from_nobreak_append [of s cur "[]"] by simp

lemma linebreak_is_space: "is_linebreak c \<Longrightarrow> is_space c"
  unfolding is_linebreak_def by (elim disjE) (simp_all add: is_space_def)

lemma nonws_Nil: "nonws [] = []"
  by (simp add: nonws_def)

lemma is_linebreak_13: "is_linebreak 13"
  by (simp add: is_linebreak_def)

lemma is_space_10: "is_space 10"
  by (simp add: is_space_def)

lemma is_space_32: "is_space 32"
  by (simp add: is_space_def)

lemma nonws_append: "nonws (a @ b) = nonws a @ nonws b"
  by (simp add: nonws_def)

lemma nonws_space_Cons: "is_space c \<Longrightarrow> nonws (c # s) = nonws s"
  by (simp add: nonws_def)

lemma nonws_splitlines_from:
  "nonws (concat (splitlines_from cur s)) = nonws cur @ nonws s"
proof (induction cur s rule: splitlines_from.induct)
  case (1 cur)
  then show ?case by (simp add: nonws_def)
next
  case (2 cur c)
  then show ?case by (simp add: nonws_def linebreak_is_space)
next
  case (3 cur c d rest)
  show ?case
  proof (cases "is_linebreak c")
    case True
    then have c: "is_space c" by (rule linebreak_is_space)
    show ?thesis
    proof (cases "c = 13 \<and> d = 10")
      case True
      with 3(1) [OF \<open>is_linebreak c\<close> True] c show ?thesis
        by (simp add: is_linebreak_13 nonws_Nil nonws_append nonws_space_Cons is_space_10)
    next
      case False
      then have "splitlines_from cur (c # d # rest) = cur # splitlines_from [] (d # rest)"
        using \<open>is_linebreak c\<close> by auto
      with 3(2) [OF \<open>is_linebreak c\<close> False] c show ?thesis
        by (simp add: nonws_Nil nonws_append nonws_space_Cons)
    qed
  next
    case False
    with 3(3) [OF False] show ?thesis
      by (simp add: nonws_def)
  qed
qed

lemma nonws_chunk_loop:
  "chunk_loop chunks cur lines = (chunks', cur') \<Longrightarrow>
     nonws (concat chunks') @ nonws cur' = nonws (concat chunks) @ nonws cur @ nonws (concat lines)"
proof (induction lines arbitrary: chunks cur)
  case Nil
  then show ?case by (simp add: nonws_def)
next
  case (Cons line lines)
  show ?case
  proof (cases "length cur + length line + 1 > max_chunk_length")
    case True
    with Cons.prems have "chunk_loop (if cur \<noteq> [] then chunks @ [strip cur] else chunks) line lines = (chunks', cur')"
      by simp
    from Cons.IH [OF this] show ?thesis
      by (auto simp: nonws_append nonws_strip) (simp add: nonws_def)
  next
    case False
    with Cons.prems have "chunk_loop chunks (cur @ [32] @ line) lines = (chunks', cur')"
      by simp
    from Cons.IH [OF this] show ?thesis
      by (simp add: nonws_append nonws_space_Cons is_space_32)
  qed
qed

lemma nonws_chunk_text: "nonws (concat (chunk_text s)) = nonws s"
proof -
  obtain chunks cur where l: "chunk_loop [] [] (splitlines s) = (chunks, cur)"
    by (cases "chunk_loop [] [] (splitlines s)")
  from nonws_chunk_loop [OF l] have "nonws (concat chunks) @ nonws cur = nonws s"
    by (simp add: splitlines_def nonws_splitlines_from) (simp add: nonws_def)
  then show ?thesis
    unfolding chunk_text_def l by (auto simp: nonws_Nil nonws_append nonws_strip)
qed

lemma nonws_join: "(\<forall>c\<in>set sep. is_space c) \<Longrightarrow> nonws (join sep xs) = nonws (concat xs)"
proof (induction sep xs rule: join.induct)
  case (3 sep x y ys)
  then have "nonws sep = []" by (simp add: nonws_def)
  with 3 show ?case by (simp add: nonws_append)
qed (simp_all add: nonws_def)

section \<open>Running the model on two lines\<close>

lemma translate_text_blank:
  "\<not> truthy x \<or> (\<forall>c\<in>set (py_str x). is_space c) \<Longrightarrow> translate_text translator x = (x, [])"
  by (simp add: translate_text_def strip_eq_Nil_iff)

lemma translate_text_nonblank:
  "truthy x \<Longrightarrow> \<not> (\<forall>c\<in>set (py_str x). is_space c) \<Longrightarrow>
     translate_text translator x =
       (PStr (reassemble (translate_batch translator (chunk_text (py_str x)))),
        [chunk_text (py_str x)])"
  by (simp add: translate_text_def strip_eq_Nil_iff Let_def)

lemma splitlines_two:
  assumes "\<forall>c\<in>set a. \<not> is_linebreak c" and "\<forall>c\<in>set b. \<not> is_linebreak c" and "b \<noteq> []"
  shows "splitlines (a @ 10 # b) = [a, b]"
proof -
  have "splitlines (a @ 10 # b) = splitlines_from a (10 # b)"
    using splitlines_from_nobreak_append [OF assms(1), of "[]" "10 # b"]
    by (simp add: splitlines_def)
  also have "\<dots> = a # splitlines_from [] b"
    by (simp add: splitlines_from_Cons is_linebreak_def del: splitlines_from.simps)
  also have "splitlines_from [] b = [b]"
    using splitlines_from_nobreak [OF assms(2), of "[]"] assms(3) by simp
  finally show ?thesis .
qed

lemma chunk_text_two_lines:
  assumes "\<forall>c\<in>set a. \<not> is_linebreak c" and "\<forall>c\<in>set b. \<not> is_linebreak c" and "b \<noteq> []"
    and "length a < 450" and "449 \<le> length a + length b"
  shows "chunk_text (a @ 10 # b) = [strip a, strip b]"
proof -
  have "chunk_loop [] [] [a, b] = ([strip a], b)"
    using assms(4,5) by (simp add: max_chunk_length_def strip_space_Cons is_space_32)
  with assms(3) show ?thesis
    by (simp add: chunk_text_def splitlines_two [OF assms(1,2,3)])
qed

lemma two_chunks:
  "chunk_text (replicate 300 97 @ 10 # replicate 300 98) = [replicate 300 97, replicate 300 98]"
proof -
  have "chunk_text (replicate 300 97 @ 10 # replicate 300 98) =
      [strip (replicate 300 97), strip (replicate 300 98)]"
    by (rule chunk_text_two_lines) (simp_all add: is_linebreak_def)
  moreover have "strip (replicate 300 97) = replicate 300 97"
    by (rule strip_trimmed) (simp_all add: is_space_def)
  moreover have "strip (replicate 300 98) = replicate 300 98"
    by (rule strip_trimmed) (simp_all add: is_space_def)
  ultimately show ?thesis by simp
qed

section \<open>Blank input\<close>

text \<open>
  C7: for every input that is the empty string or consists only of whitespace
  characters, \<open>translate_text\<close> returns the input unchanged and passes no batch
  to the translation backend.
\<close>

theorem translate_text_blank_unchanged:
  assumes "\<forall>c\<in>set s. is_space c"
  shows "translate_text translator (PStr s) = (PStr s, [])"
  using assms by (simp add: translate_text_blank)

theorem translate_text_blank_unchanged_witness:
  "translate_text (chunkwise stub) (PStr [32, 9, 10]) = (PStr [32, 9, 10], [])
   \<and> translate_text (chunkwise stub) (PStr []) = (PStr [], [])"
proof -
  have a: "\<forall>c\<in>set [32, 9, 10]. is_space c" by (simp add: is_space_def)
  have b: "\<forall>c\<in>set []. is_space c" by simp
  from translate_text_blank_unchanged [OF a] translate_text_blank_unchanged [OF b]
  show ?thesis by blast
qed

text \<open>
  C8 as stated asks for an empty output. For the input of one space the output is
  that space, not the empty string.
\<close>

theorem blank_output_not_empty:
  "fst (translate_text (chunkwise stub) (PStr [32])) \<noteq> PStr []"
  by (simp add: translate_text_def strip_def is_space_def)

text \<open>
  C8, amended: for every input that is empty or consists only of whitespace
  characters the backend is not invoked and the output is the input itself, a
  string with no content other than whitespace: empty for the empty input, and the
  same whitespace otherwise.
\<close>

theorem translate_text_blank_output:
  assumes "\<forall>c\<in>set s. is_space c"
  shows "snd (translate_text translator (PStr s)) = []
    \<and> (\<exists>out. fst (translate_text translator (PStr s)) = PStr out \<and> out = s \<and>
          nonws out = [] \<and> (out = [] \<longleftrightarrow> s = []))"
proof -
  from assms have "nonws s = []" by (simp add: nonws_def)
  with assms show ?thesis by (simp add: translate_text_blank)
qed

theorem translate_text_blank_output_witness:
  "snd (translate_text (chunkwise stub) (PStr [32])) = []
    \<and> (\<exists>out. fst (translate_text (chunkwise stub) (PStr [32])) = PStr out \<and> out = [32] \<and>
          nonws out = [] \<and> (out = [] \<longleftrightarrow> [32::nat] = []))"
proof -
  have a: "\<forall>c\<in>set [32]. is_space c" by (simp add: is_space_def)
  from translate_text_blank_output [OF a] show ?thesis .
qed

section \<open>Failure of the backend\<close>

text \<open>
  C3: whenever the call of the backend raises an exception, \<open>translate_text\<close>
  returns a value all the same: the list of translations is the single string
  \<open>[Translation error: e]\<close>, and that string alone is the result, also when the
  input has been cut into several chunks.
\<close>

theorem translate_text_backend_failure:
  assumes "truthy x" and "\<not> (\<forall>c\<in>set (py_str x). is_space c)"
    and "translator (chunk_text (py_str x)) 512 = Inl e"
  shows "translate_batch translator (chunk_text (py_str x)) =
           [ascii ''[Translation error: '' @ e @ ascii '']'']
    \<and> length (translate_batch translator (chunk_text (py_str x))) = 1
    \<and> translate_text translator x =
         (PStr (ascii ''[Translation error: '' @ e @ ascii '']''), [chunk_text (py_str x)])"
proof -
  from assms(3) have b: "translate_batch translator (chunk_text (py_str x)) =
      [ascii ''[Translation error: '' @ e @ ascii '']'']"
    by (simp add: translate_batch_def)
  from assms(1,2) b show ?thesis
    by (simp add: translate_text_nonblank reassemble_def)
qed

theorem translate_text_backend_failure_witness:
  "length (chunk_text (py_str (PStr (replicate 300 97 @ 10 # replicate 300 98)))) = 2
   \<and> translate_batch (failing (ascii ''boom''))
        (chunk_text (py_str (PStr (replicate 300 97 @ 10 # replicate 300 98)))) =
         [ascii ''[Translation error: boom]'']
   \<and> translate_text (failing (ascii ''boom'')) (PStr (replicate 300 97 @ 10 # replicate 300 98)) =
        (PStr (ascii ''[Translation error: boom]''),
         [[replicate 300 97, replicate 300 98]])"
proof -
  let ?x = "PStr (replicate 300 97 @ 10 # replicate 300 98)"
  have a: "truthy ?x" by simp
  have b: "\<not> (\<forall>c\<in>set (py_str ?x). is_space c)" by (simp add: is_space_def)
  have c: "failing (ascii ''boom'') (chunk_text (py_str ?x)) 512 = Inl (ascii ''boom'')"
    by (simp add: failing_def)
  from translate_text_backend_failure
    [where translator = "failing (ascii ''boom'')" and x = ?x and e = "ascii ''boom''", OF a b c]
  show ?thesis
    by (simp add: two_chunks ascii_def)
qed

section \<open>Alignment of chunks and translations\<close>

lemma chunk_text_hola: "chunk_text (ascii ''Hola'') = [ascii ''Hola'']"
proof -
  have "splitlines (ascii ''Hola'') = [ascii ''Hola'']"
    unfolding splitlines_def
    by (subst splitlines_from_nobreak) (simp_all add: ascii_def is_linebreak_def)
  moreover have "strip (32 # ascii ''Hola'') = ascii ''Hola''"
    by (simp add: strip_def ascii_def is_space_def)
  ultimately show ?thesis
    by (simp add: chunk_text_def max_chunk_length_def) (simp add: ascii_def)
qed

lemma chunkwise_results:
  "chunkwise f chunks n = Inr (map (\<lambda>c. \<lparr>translation_text = f c\<rparr>) chunks)"
  by (simp add: chunkwise_def)

text \<open>
  C1: when the backend succeeds, returning one result for every chunk, there are as
  many translations as chunks, the translation at index \<open>i\<close> is the text of the
  backend's result at index \<open>i\<close>, and the value of \<open>translate_text\<close> is these
  texts joined in order by two newlines. With the stub backend, the chunks
  \<open>Hola\<close> and \<open>mundo\<close> give \<open>Hello\<close>, two newlines, \<open>world\<close>.
\<close>

theorem translate_text_aligned:
  assumes "truthy x" and "\<not> (\<forall>c\<in>set (py_str x). is_space c)"
    and "translator (chunk_text (py_str x)) 512 = Inr results"
    and "length results = length (chunk_text (py_str x))"
  shows "length (translate_batch translator (chunk_text (py_str x))) = length (chunk_text (py_str x))
    \<and> (\<forall>i < length (chunk_text (py_str x)).
          translate_batch translator (chunk_text (py_str x)) ! i = translation_text (results ! i))
    \<and> translate_text translator x =
          (PStr (join [10, 10] (map translation_text results)), [chunk_text (py_str x)])
    \<and> reassemble (translate_batch (chunkwise stub) [ascii ''Hola'', ascii ''mundo'']) =
          ascii ''Hello'' @ [10, 10] @ ascii ''world''"
proof -
  from assms(3) have b: "translate_batch translator (chunk_text (py_str x)) = map translation_text results"
    by (simp add: translate_batch_def)
  have "reassemble (translate_batch (chunkwise stub) [ascii ''Hola'', ascii ''mundo'']) =
          ascii ''Hello'' @ [10, 10] @ ascii ''world''"
    by (simp add: reassemble_def translate_batch_def chunkwise_def stub_def ascii_def)
  with assms(1,2,4) b show ?thesis
    by (simp add: translate_text_nonblank reassemble_def)
qed

theorem translate_text_aligned_witness:
  "length (translate_batch (chunkwise stub) (chunk_text (replicate 300 97 @ 10 # replicate 300 98))) = 2
   \<and> translate_batch (chunkwise stub) (chunk_text (replicate 300 97 @ 10 # replicate 300 98)) ! 0
        = stub (replicate 300 97)
   \<and> translate_batch (chunkwise stub) (chunk_text (replicate 300 97 @ 10 # replicate 300 98)) ! 1
        = stub (replicate 300 98)
   \<and> translate_text (chunkwise stub) (PStr (replicate 300 97 @ 10 # replicate 300 98)) =
        (PStr (stub (replicate 300 97) @ [10, 10] @ stub (replicate 300 98)),
         [[replicate 300 97, replicate 300 98]])
   \<and> translate_text (chunkwise stub) (PStr (ascii ''Hola'')) =
        (PStr (ascii ''Hello''), [[ascii ''Hola'']])"
proof -
  let ?x = "PStr (replicate 300 97 @ 10 # replicate 300 98)"
  let ?rs = "map (\<lambda>c. \<lparr>translation_text = stub c\<rparr>) (chunk_text (py_str ?x))"
  have a: "truthy ?x" by simp
  have b: "\<not> (\<forall>c\<in>set (py_str ?x). is_space c)" by (simp add: is_space_def)
  have c: "chunkwise stub (chunk_text (py_str ?x)) 512 = Inr ?rs"
    by (rule chunkwise_results)
  have d: "length ?rs = length (chunk_text (py_str ?x))" by simp
  let ?y = "PStr (ascii ''Hola'')"
  let ?rs' = "map (\<lambda>c. \<lparr>translation_text = stub c\<rparr>) (chunk_text (py_str ?y))"
  have a': "truthy ?y" by (simp add: ascii_def)
  have b': "\<not> (\<forall>c\<in>set (py_str ?y). is_space c)" by (simp add: is_space_def ascii_def)
  have c': "chunkwise stub (chunk_text (py_str ?y)) 512 = Inr ?rs'"
    by (rule chunkwise_results)
  have d': "length ?rs' = length (chunk_text (py_str ?y))" by simp
  have e: "stub (ascii ''Hola'') = ascii ''Hello''" by (simp add: stub_def)
  from translate_text_aligned
    [where translator = "chunkwise stub" and x = ?x and results = ?rs, OF a b c d]
  have 1: "length (translate_batch (chunkwise stub) (chunk_text (replicate 300 97 @ 10 # replicate 300 98))) = 2
   \<and> translate_batch (chunkwise stub) (chunk_text (replicate 300 97 @ 10 # replicate 300 98)) ! 0
        = stub (replicate 300 97)
   \<and> translate_batch (chunkwise stub) (chunk_text (replicate 300 97 @ 10 # replicate 300 98)) ! 1
        = stub (replicate 300 98)
   \<and> translate_text (chunkwise stub) (PStr (replicate 300 97 @ 10 # replicate 300 98)) =
        (PStr (stub (replicate 300 97) @ [10, 10] @ stub (replicate 300 98)),
         [[replicate 300 97, replicate 300 98]])"
    by (simp add: two_chunks)
  from translate_text_aligned
    [where translator = "chunkwise stub" and x = ?y and results = ?rs', OF a' b' c' d']
  have 2: "translate_text (chunkwise stub) (PStr (ascii ''Hola'')) =
        (PStr (ascii ''Hello''), [[ascii ''Hola'']])"
    by (simp add: chunk_text_hola e)
  from 1 2 show ?thesis by blast
qed

section \<open>Values that are not strings\<close>

lemma digits_not_space: "c \<in> set (digits n) \<Longrightarrow> 48 \<le> c \<and> c \<le> 57"
proof (induction n arbitrary: c rule: digits.induct)
  case (1 n)
  show ?case
  proof (cases "n < 10")
    case True
    with 1(2) show ?thesis by (subst (asm) digits.simps) simp
  next
    case False
    from 1(2) have "c \<in> set (digits (n div 10)) \<or> c = 48 + n mod 10"
      by (subst (asm) digits.simps) (auto simp: False)
    then show ?thesis
    proof
      assume "c \<in> set (digits (n div 10))"
      with 1(1) [OF False] show ?thesis .
    next
      assume c: "c = 48 + n mod 10"
      have "n mod 10 < 10" by simp
      with c show ?thesis by linarith
    qed
  qed
qed

lemma digits_nonempty: "digits n \<noteq> []"
  by (subst digits.simps) simp

lemma py_str_nonblank:
  assumes "\<not> isinstance_str x"
  shows "\<not> (\<forall>c\<in>set (py_str x). is_space c)"
proof (cases x)
  case PNone
  then show ?thesis by (simp add: ascii_def is_space_def)
next
  case (PBool b)
  then show ?thesis by (simp add: ascii_def is_space_def)
next
  case (PInt i)
  obtain c where c: "c \<in> set (digits (nat \<bar>i\<bar>))"
    using digits_nonempty [of "nat \<bar>i\<bar>"] by (cases "digits (nat \<bar>i\<bar>)") auto
  from digits_not_space [OF c] have "\<not> is_space c" by (simp add: is_space_def)
  moreover from c PInt have "c \<in> set (py_str x)" by (cases "i < 0") simp_all
  ultimately show ?thesis by blast
next
  case (PStr s)
  with assms show ?thesis by simp
qed

lemma chunk_text_42: "chunk_text [52, 50] = [[52, 50]]"
proof -
  have "splitlines [52, 50] = [[52, 50]]"
    by (simp add: splitlines_def is_linebreak_def)
  moreover have "strip [32, 52, 50] = [52, 50]"
    by (simp add: strip_def is_space_def)
  ultimately show ?thesis
    by (simp add: chunk_text_def max_chunk_length_def)
qed

lemma digits_42: "digits 42 = [52, 50]"
  by (simp add: digits.simps)

text \<open>
  C10: \<open>translate_text\<close> takes any value. A value that is falsy, or whose
  \<open>str()\<close> is whitespace only, is returned as it is, with its type. Any other value
  is first converted with \<open>str()\<close>, and the chunks are those of that string. For
  a value that is not a string, \<open>str()\<close> is never blank, so its truth alone
  decides.
\<close>

theorem translate_text_any_value:
  "(\<not> truthy x \<or> (\<forall>c\<in>set (py_str x). is_space c) \<longrightarrow> translate_text translator x = (x, []))
   \<and> (truthy x \<and> \<not> (\<forall>c\<in>set (py_str x). is_space c) \<longrightarrow>
        translate_text translator x = translate_text translator (PStr (py_str x))
        \<and> translate_text translator x =
            (PStr (reassemble (translate_batch translator (chunk_text (py_str x)))),
             [chunk_text (py_str x)]))
   \<and> (\<not> isinstance_str x \<longrightarrow>
        translate_text translator x =
          (if truthy x then translate_text translator (PStr (py_str x)) else (x, [])))"
proof (intro conjI impI)
  assume "\<not> truthy x \<or> (\<forall>c\<in>set (py_str x). is_space c)"
  then show "translate_text translator x = (x, [])" by (rule translate_text_blank)
next
  assume a: "truthy x \<and> \<not> (\<forall>c\<in>set (py_str x). is_space c)"
  then have "truthy (PStr (py_str x))" by auto
  with a show "translate_text translator x = translate_text translator (PStr (py_str x))"
    by (simp add: translate_text_nonblank)
  from a show "translate_text translator x =
      (PStr (reassemble (translate_batch translator (chunk_text (py_str x)))), [chunk_text (py_str x)])"
    by (simp add: translate_text_nonblank)
next
  assume n: "\<not> isinstance_str x"
  then have b: "\<not> (\<forall>c\<in>set (py_str x). is_space c)" by (rule py_str_nonblank)
  then have "truthy (PStr (py_str x))" by auto
  with b show "translate_text translator x =
      (if truthy x then translate_text translator (PStr (py_str x)) else (x, []))"
    by (simp add: translate_text_nonblank translate_text_blank)
qed

theorem translate_text_any_value_witness:
  "translate_text (chunkwise id) PNone = (PNone, [])
   \<and> translate_text (chunkwise id) (PInt 0) = (PInt 0, [])
   \<and> translate_text (chunkwise id) (PBool False) = (PBool False, [])
   \<and> translate_text (chunkwise id) (PStr [32, 32]) = (PStr [32, 32], [])
   \<and> translate_text (chunkwise id) (PInt 42) = (PStr [52, 50], [[[52, 50]]])"
proof -
  note t = translate_text_any_value [where translator = "chunkwise id"]
  have 1: "translate_text (chunkwise id) PNone = (PNone, [])"
    using t [of PNone] by simp
  have 2: "translate_text (chunkwise id) (PInt 0) = (PInt 0, [])"
    using t [of "PInt 0"] by simp
  have 3: "translate_text (chunkwise id) (PBool False) = (PBool False, [])"
    using t [of "PBool False"] by simp
  have 4: "translate_text (chunkwise id) (PStr [32, 32]) = (PStr [32, 32], [])"
    using t [of "PStr [32, 32]"] by (simp add: is_space_def)
  have "truthy (PInt 42) \<and> \<not> (\<forall>c\<in>set (py_str (PInt 42)). is_space c)"
    by (simp add: digits_42 is_space_def)
  with t [of "PInt 42"] have "translate_text (chunkwise id) (PInt 42) =
      (PStr (reassemble (translate_batch (chunkwise id) (chunk_text (py_str (PInt 42))))),
       [chunk_text (py_str (PInt 42))])"
    by blast
  then have 5: "translate_text (chunkwise id) (PInt 42) = (PStr [52, 50], [[[52, 50]]])"
    by (simp add: digits_42 chunk_text_42 reassemble_def translate_batch_def chunkwise_def)
  from 1 2 3 4 5 show ?thesis by blast
qed

section \<open>Cells of a spreadsheet\<close>

lemma isinstance_str_py_str: "isinstance_str x \<Longrightarrow> PStr (py_str x) = x"
  by (cases x) simp_all

lemma translate_cell_cases:
  "translate_cell translator x =
     (if isinstance_str x \<and> \<not> (\<forall>c\<in>set (py_str x). is_space c)
      then translate_text translator x else (x, []))"
  by (auto simp: translate_cell_def strip_eq_Nil_iff isinstance_str_py_str)

lemma hola_row:
  "applymap (fst \<circ> translate_cell (chunkwise stub)) [[PStr (ascii ''Hola''), PInt 42, PStr []]] =
     [[PStr (ascii ''Hello''), PInt 42, PStr []]]"
proof -
  have "translate_text (chunkwise stub) (PStr (ascii ''Hola'')) =
      (PStr (ascii ''Hello''), [[ascii ''Hola'']])"
    by (simp add: translate_text_def strip_eq_Nil_iff chunk_text_hola translate_batch_def
        chunkwise_def reassemble_def stub_def)
      (simp add: ascii_def is_space_def)
  moreover have "\<not> (\<forall>c\<in>set (ascii ''Hola''). is_space c)"
    by (simp add: ascii_def is_space_def)
  ultimately show ?thesis
    by (simp add: applymap_def translate_cell_cases)
qed

text \<open>
  C9: in a spreadsheet every cell is treated on its own. A cell that is a string
  with content other than whitespace is replaced by its translation, and the backend
  is called with the chunks of that cell alone; every other cell (a value that is not
  a string, an empty or whitespace-only string) is left as it is, and the backend is
  not called for it. The frame keeps its shape. The row \<open>Hola\<close>, 42, empty string
  becomes \<open>Hello\<close>, 42, empty string under the stub backend.
\<close>

theorem spreadsheet_cells:
  assumes "i < length df" and "j < length (df ! i)"
  shows "length (applymap (fst \<circ> translate_cell translator) df) = length df
    \<and> length (applymap (fst \<circ> translate_cell translator) df ! i) = length (df ! i)
    \<and> applymap (fst \<circ> translate_cell translator) df ! i ! j =
        (if isinstance_str (df ! i ! j) \<and> \<not> (\<forall>c\<in>set (py_str (df ! i ! j)). is_space c)
         then fst (translate_text translator (df ! i ! j)) else df ! i ! j)
    \<and> snd (translate_cell translator (df ! i ! j)) =
        (if isinstance_str (df ! i ! j) \<and> \<not> (\<forall>c\<in>set (py_str (df ! i ! j)). is_space c)
         then [chunk_text (py_str (df ! i ! j))] else [])
    \<and> applymap (fst \<circ> translate_cell (chunkwise stub))
          [[PStr (ascii ''Hola''), PInt 42, PStr []]] =
        [[PStr (ascii ''Hello''), PInt 42, PStr []]]"
proof -
  have "snd (translate_cell translator (df ! i ! j)) =
        (if isinstance_str (df ! i ! j) \<and> \<not> (\<forall>c\<in>set (py_str (df ! i ! j)). is_space c)
         then [chunk_text (py_str (df ! i ! j))] else [])"
    by (cases "df ! i ! j") (auto simp: translate_cell_cases translate_text_def Let_def strip_eq_Nil_iff)
  moreover have "length (applymap (fst \<circ> translate_cell translator) df) = length df"
    by (simp add: applymap_def)
  moreover have "length (applymap (fst \<circ> translate_cell translator) df ! i) = length (df ! i)"
    using assms(1) by (simp add: applymap_def)
  moreover have "applymap (fst \<circ> translate_cell translator) df ! i ! j =
      fst (translate_cell translator (df ! i ! j))"
    using assms by (simp add: applymap_def)
  then have "applymap (fst \<circ> translate_cell translator) df ! i ! j =
        (if isinstance_str (df ! i ! j) \<and> \<not> (\<forall>c\<in>set (py_str (df ! i ! j)). is_space c)
         then fst (translate_text translator (df ! i ! j)) else df ! i ! j)"
    by (simp only: translate_cell_cases if_distrib [of fst] fst_conv)
  ultimately show ?thesis
    using hola_row by (intro conjI)
qed

theorem spreadsheet_cells_witness:
  "applymap (fst \<circ> translate_cell (chunkwise stub)) [[PStr (ascii ''Hola''), PInt 42, PStr []]] ! 0 ! 0
     = PStr (ascii ''Hello'')
   \<and> snd (translate_cell (chunkwise stub) (PStr (ascii ''Hola''))) = [[ascii ''Hola'']]
   \<and> applymap (fst \<circ> translate_cell (chunkwise stub)) [[PStr (ascii ''Hola''), PInt 42, PStr []]] ! 0 ! 1
     = PInt 42
   \<and> snd (translate_cell (chunkwise stub) (PInt 42)) = []
   \<and> applymap (fst \<circ> translate_cell (chunkwise stub)) [[PStr (ascii ''Hola''), PInt 42, PStr []]] ! 0 ! 2
     = PStr []
   \<and> snd (translate_cell (chunkwise stub) (PStr [])) = []"
proof -
  let ?df = "[[PStr (ascii ''Hola''), PInt 42, PStr []]]"
  have i: "0 < length ?df" by simp
  have j0: "0 < length (?df ! 0)" and j1: "1 < length (?df ! 0)" and j2: "2 < length (?df ! 0)"
    by simp_all
  have h: "\<not> (\<forall>c\<in>set (ascii ''Hola''). is_space c)"
    by (simp add: ascii_def is_space_def)
  have t: "translate_text (chunkwise stub) (PStr (ascii ''Hola'')) =
      (PStr (ascii ''Hello''), [[ascii ''Hola'']])"
    by (simp add: translate_text_def strip_eq_Nil_iff chunk_text_hola translate_batch_def
        chunkwise_def reassemble_def stub_def)
      (simp add: ascii_def is_space_def)
  from spreadsheet_cells [where translator = "chunkwise stub", OF i j0]
  have 0: "applymap (fst \<circ> translate_cell (chunkwise stub)) ?df ! 0 ! 0 = PStr (ascii ''Hello'')
    \<and> snd (translate_cell (chunkwise stub) (PStr (ascii ''Hola''))) = [[ascii ''Hola'']]"
    by (simp add: h t chunk_text_hola)
  from spreadsheet_cells [where translator = "chunkwise stub", OF i j1]
  have 1: "applymap (fst \<circ> translate_cell (chunkwise stub)) ?df ! 0 ! 1 = PInt 42
    \<and> snd (translate_cell (chunkwise stub) (PInt 42)) = []"
    by simp
  from spreadsheet_cells [where translator = "chunkwise stub", OF i j2]
  have 2: "applymap (fst \<circ> translate_cell (chunkwise stub)) ?df ! 0 ! 2 = PStr []
    \<and> snd (translate_cell (chunkwise stub) (PStr [])) = []"
    by simp
  from 0 1 2 show ?thesis by blast
qed

section \<open>A single long line\<close>

lemma chunk_text_one_line:
  assumes "splitlines s = [l]" and "450 < length l"
  shows "chunk_text s = [strip l]"
proof -
  from assms(2) have "l \<noteq> []" by auto
  with assms show ?thesis
    by (simp add: chunk_text_def max_chunk_length_def)
qed

lemma splitlines_no_linebreak:
  assumes "\<forall>c\<in>set s. \<not> is_linebreak c" and "s \<noteq> []"
  shows "splitlines s = [s]"
  using splitlines_from_nobreak [OF assms(1), of "[]"] assms(2) by (simp add: splitlines_def)

text \<open>
  C6: a text that is a single line longer than 450 gives exactly one chunk, that
  line stripped. A single line is a text for which \<open>splitlines\<close> returns one line;
  in particular a text that holds none of the characters at which \<open>splitlines\<close>
  breaks is its own single line.
\<close>

theorem chunk_text_single_long_line:
  "(splitlines s = [l] \<and> 450 < length l \<longrightarrow> chunk_text s = [strip l])
   \<and> ((\<forall>c\<in>set s. \<not> is_linebreak c) \<and> 450 < length s \<longrightarrow>
        splitlines s = [s] \<and> chunk_text s = [strip s])"
proof (intro conjI impI)
  assume "splitlines s = [l] \<and> 450 < length l"
  then show "chunk_text s = [strip l]" by (simp add: chunk_text_one_line)
next
  assume a: "(\<forall>c\<in>set s. \<not> is_linebreak c) \<and> 450 < length s"
  then have "s \<noteq> []" by auto
  with a show l: "splitlines s = [s]" by (simp add: splitlines_no_linebreak)
  with a show "chunk_text s = [strip s]" by (simp add: chunk_text_one_line)
qed

theorem chunk_text_single_long_line_witness:
  "chunk_text (32 # replicate 451 97 @ [32]) = [replicate 451 97]
   \<and> chunk_text (replicate 451 97 @ [10]) = [replicate 451 97]"
proof -
  let ?s = "32 # replicate 451 97 @ [32]"
  have a: "(\<forall>c\<in>set ?s. \<not> is_linebreak c) \<and> 450 < length ?s"
    by (simp add: is_linebreak_def)
  have "strip ?s = replicate 451 97"
    by (simp add: strip_def is_space_def)
  with chunk_text_single_long_line [of ?s] a
  have 1: "chunk_text ?s = [replicate 451 97]" by simp
  let ?t = "replicate 451 97 @ [10]"
  let ?l = "replicate 451 97"
  have "splitlines ?t = splitlines_from ?l [10]"
    unfolding splitlines_def
    by (subst splitlines_from_nobreak_append) (simp_all add: is_linebreak_def)
  then have b: "splitlines ?t = [?l] \<and> 450 < length ?l"
    by (simp add: is_linebreak_def)
  have "strip ?l = ?l"
    by (rule strip_trimmed) (simp_all add: is_space_def)
  with chunk_text_single_long_line [of ?t ?l] b
  have 2: "chunk_text ?t = [?l]" by simp
  from 1 2 show ?thesis by blast
qed

section \<open>The length of the chunks\<close>

lemma chunk_loop_bounded:
  assumes "chunk_loop chunks cur lines = (chunks', cur')"
    and "set lines \<subseteq> L"
    and "\<forall>c\<in>set chunks. length c \<le> 450 \<or> (\<exists>l\<in>L. 450 < length l \<and> c = strip l)"
    and "length cur \<le> 450 \<or> cur \<in> L"
  shows "(\<forall>c\<in>set chunks'. length c \<le> 450 \<or> (\<exists>l\<in>L. 450 < length l \<and> c = strip l))
    \<and> (length cur' \<le> 450 \<or> cur' \<in> L)"
  using assms
proof (induction lines arbitrary: chunks cur)
  case Nil
  then show ?case by simp
next
  case (Cons line lines)
  have flush: "length (strip cur) \<le> 450 \<or> (\<exists>l\<in>L. 450 < length l \<and> strip cur = strip l)"
  proof (cases "length cur \<le> 450")
    case True
    with length_strip [of cur] show ?thesis by linarith
  next
    case False
    with Cons.prems(4) have "cur \<in> L" and "450 < length cur" by auto
    then show ?thesis by blast
  qed
  show ?case
  proof (cases "length cur + length line + 1 > max_chunk_length")
    case True
    let ?chunks = "if cur \<noteq> [] then chunks @ [strip cur] else chunks"
    from True Cons.prems(1) have 1: "chunk_loop ?chunks line lines = (chunks', cur')"
      by simp
    from Cons.prems(2) have 2: "set lines \<subseteq> L" and "line \<in> L" by auto
    then have 4: "length line \<le> 450 \<or> line \<in> L" by simp
    from Cons.prems(3) flush
    have 3: "\<forall>c\<in>set ?chunks. length c \<le> 450 \<or> (\<exists>l\<in>L. 450 < length l \<and> c = strip l)"
      by auto
    from Cons.IH [OF 1 2 3 4] show ?thesis .
  next
    case False
    with Cons.prems(1) have 1: "chunk_loop chunks (cur @ [32] @ line) lines = (chunks', cur')"
      by simp
    from Cons.prems(2) have 2: "set lines \<subseteq> L" by auto
    from False have 4: "length (cur @ [32] @ line) \<le> 450 \<or> cur @ [32] @ line \<in> L"
      by (simp add: max_chunk_length_def)
    from Cons.IH [OF 1 2 Cons.prems(3) 4] show ?thesis .
  qed
qed

lemma chunk_loop_long_lines:
  assumes "chunk_loop chunks cur lines = (chunks', cur')"
  shows "set chunks \<subseteq> set chunks'
    \<and> (450 < length cur \<longrightarrow> strip cur \<in> set chunks' \<or> cur' = cur)
    \<and> (\<forall>l\<in>set lines. 450 < length l \<longrightarrow> strip l \<in> set chunks' \<or> cur' = l)"
  using assms
proof (induction lines arbitrary: chunks cur)
  case Nil
  then show ?case by simp
next
  case (Cons line lines)
  show ?case
  proof (cases "length cur + length line + 1 > max_chunk_length")
    case True
    let ?chunks = "if cur \<noteq> [] then chunks @ [strip cur] else chunks"
    from True Cons.prems have 1: "chunk_loop ?chunks line lines = (chunks', cur')"
      by simp
    have "450 < length cur \<longrightarrow> strip cur \<in> set ?chunks" by auto
    moreover have "set chunks \<subseteq> set ?chunks" by auto
    moreover note Cons.IH [OF 1]
    ultimately show ?thesis by auto
  next
    case False
    with Cons.prems have 1: "chunk_loop chunks (cur @ [32] @ line) lines = (chunks', cur')"
      by simp
    from False have "\<not> 450 < length cur" and "\<not> 450 < length line"
      by (simp_all add: max_chunk_length_def)
    with Cons.IH [OF 1] show ?thesis by auto
  qed
qed

lemma long_then_short:
  "chunk_text (replicate 451 97 @ 10 # [98]) = [replicate 451 97, [98]]"
proof -
  have "splitlines (replicate 451 97 @ 10 # [98]) = [replicate 451 97, [98]]"
    by (rule splitlines_two) (simp_all add: is_linebreak_def)
  moreover have "strip (replicate 451 97) = replicate 451 97"
    by (rule strip_trimmed) (simp_all add: is_space_def)
  moreover have "strip [98] = [98]"
    by (simp add: strip_def is_space_def)
  ultimately show ?thesis
    by (simp add: chunk_text_def max_chunk_length_def)
qed

text \<open>
  C2: every chunk has length at most 450, unless it is a single line of the text,
  stripped, whose own length is above 450; and every line longer than 450 becomes
  such a chunk on its own, neither cut nor merged with another line.
\<close>

theorem chunk_text_bounded:
  "(\<forall>c\<in>set (chunk_text s).
      length c \<le> 450 \<or> (\<exists>l\<in>set (splitlines s). 450 < length l \<and> c = strip l))
   \<and> (\<forall>l\<in>set (splitlines s). 450 < length l \<longrightarrow> strip l \<in> set (chunk_text s))"
proof -
  obtain chunks cur where l: "chunk_loop [] [] (splitlines s) = (chunks, cur)"
    by (cases "chunk_loop [] [] (splitlines s)")
  let ?L = "set (splitlines s)"
  have "(\<forall>c\<in>set chunks. length c \<le> 450 \<or> (\<exists>l\<in>?L. 450 < length l \<and> c = strip l))
    \<and> (length cur \<le> 450 \<or> cur \<in> ?L)"
    by (rule chunk_loop_bounded [OF l]) simp_all
  moreover have "length (strip cur) \<le> 450 \<or> (\<exists>l\<in>?L. 450 < length l \<and> strip cur = strip l)"
  proof (cases "length cur \<le> 450")
    case True
    with length_strip [of cur] show ?thesis by linarith
  next
    case False
    with calculation have "cur \<in> ?L" and "450 < length cur" by auto
    then show ?thesis by blast
  qed
  ultimately have a: "\<forall>c\<in>set (chunk_text s).
      length c \<le> 450 \<or> (\<exists>l\<in>?L. 450 < length l \<and> c = strip l)"
    unfolding chunk_text_def l by auto
  from chunk_loop_long_lines [OF l]
  have b: "\<forall>l\<in>?L. 450 < length l \<longrightarrow> strip l \<in> set (chunk_text s)"
    unfolding chunk_text_def l by auto
  from a b show ?thesis by blast
qed

theorem chunk_text_bounded_witness:
  "chunk_text (replicate 451 97 @ 10 # [98]) = [replicate 451 97, [98]]
   \<and> strip (replicate 451 97) \<in> set (chunk_text (replicate 451 97 @ 10 # [98]))
   \<and> length (chunk_text (replicate 451 97 @ 10 # [98]) ! 1) \<le> 450
   \<and> (\<exists>l. l \<in> set (splitlines (replicate 451 97 @ 10 # [98])) \<and> 450 < length l \<and>
          chunk_text (replicate 451 97 @ 10 # [98]) ! 0 = strip l)"
proof -
  let ?s = "replicate 451 97 @ 10 # [98]"
  have l: "splitlines ?s = [replicate 451 97, [98]]"
    by (rule splitlines_two) (simp_all add: is_linebreak_def)
  note b = chunk_text_bounded [of ?s]
  from b have "450 < length (replicate 451 (97::nat)) \<longrightarrow>
      strip (replicate 451 97) \<in> set (chunk_text ?s)"
    unfolding l by simp
  then have 1: "strip (replicate 451 97) \<in> set (chunk_text ?s)" by simp
  from b have "\<forall>c\<in>set (chunk_text ?s).
      length c \<le> 450 \<or> (\<exists>l\<in>set (splitlines ?s). 450 < length l \<and> c = strip l)"
    by blast
  then have "length (replicate 451 (97::nat)) \<le> 450 \<or>
      (\<exists>l\<in>set (splitlines ?s). 450 < length l \<and> replicate 451 97 = strip l)"
    unfolding long_then_short by simp
  then have 2: "\<exists>l. l \<in> set (splitlines ?s) \<and> 450 < length l \<and> chunk_text ?s ! 0 = strip l"
    unfolding long_then_short by auto
  from 1 2 show ?thesis
    by (simp add: long_then_short)
qed

section \<open>The identity backend\<close>

lemma translate_batch_chunkwise: "translate_batch (chunkwise f) chunks = map f chunks"
  by (simp add: translate_batch_def chunkwise_def comp_def)

text \<open>
  The lines behind every chunk. The loop keeps, with \<open>current_chunk\<close>, the run
  \<open>g\<close> of lines it has put there: the buffer is these lines joined by one space,
  with or without a space in front. An empty line that starts a buffer which is then
  dropped empty counts with the run before it, where it adds a space that
  \<open>strip\<close> removes.
\<close>

lemma join_snoc: "g \<noteq> [] \<Longrightarrow> join sep (g @ [x]) = join sep g @ sep @ x"
  by (induction sep g rule: join.induct) simp_all

lemma strip_space_snoc:
  assumes "is_space c"
  shows "strip (s @ [c]) = strip s"
proof (cases "\<forall>x\<in>set s. is_space x")
  case True
  with assms have "\<forall>x\<in>set (s @ [c]). is_space x" by simp
  then have "strip (s @ [c]) = []" by (simp only: strip_eq_Nil_iff)
  moreover from True have "strip s = []" by (simp only: strip_eq_Nil_iff)
  ultimately show ?thesis by simp
next
  case False
  then have "dropWhile is_space (s @ [c]) = dropWhile is_space s @ [c]"
    by (simp add: dropWhile_append)
  with assms show ?thesis by (simp add: strip_def)
qed

lemma strip_join_empty_line:
  assumes "g \<noteq> []"
  shows "strip (join [32] (g @ [[]])) = strip (join [32] g)"
proof -
  from assms have "join [32] (g @ [[]]) = join [32] g @ [32]"
    by (simp add: join_snoc)
  then show ?thesis by (simp add: strip_space_snoc is_space_32)
qed

lemma chunk_loop_groups:
  assumes "chunk_loop chunks cur lines = (chunks', cur')"
    and "chunks = map (\<lambda>g. strip (join [32] g)) G"
    and "\<forall>g\<in>set G. g \<noteq> []"
    and "(g = [] \<and> cur = []) \<or>
         (g \<noteq> [] \<and> cur \<noteq> [] \<and> (cur = join [32] g \<or> cur = 32 # join [32] g))"
  shows "\<exists>G' g'. concat G' @ g' = concat G @ g @ lines
    \<and> chunks' = map (\<lambda>g. strip (join [32] g)) G'
    \<and> (\<forall>g\<in>set G'. g \<noteq> [])
    \<and> ((g' = [] \<and> cur' = []) \<or>
        (g' \<noteq> [] \<and> cur' \<noteq> [] \<and> (cur' = join [32] g' \<or> cur' = 32 # join [32] g')))"
  using assms
proof (induction lines arbitrary: chunks cur G g)
  case Nil
  then show ?case by auto
next
  case (Cons line lines)
  show ?case
  proof (cases "length cur + length line + 1 > max_chunk_length")
    case True
    let ?chunks = "if cur \<noteq> [] then chunks @ [strip cur] else chunks"
    from True Cons.prems(1) have 1: "chunk_loop ?chunks line lines = (chunks', cur')"
      by simp
    show ?thesis
    proof (cases "cur = []")
      case True
      with Cons.prems(4) have g: "g = []" by auto
      from True \<open>length cur + length line + 1 > max_chunk_length\<close> have l: "line \<noteq> []"
        by (auto simp: max_chunk_length_def)
      from True Cons.prems(2) have 2: "?chunks = map (\<lambda>g. strip (join [32] g)) G" by simp
      from l have 4: "([line] = [] \<and> line = []) \<or>
         ([line] \<noteq> [] \<and> line \<noteq> [] \<and> (line = join [32] [line] \<or> line = 32 # join [32] [line]))"
        by simp
      from Cons.IH [OF 1 2 Cons.prems(3) 4] g show ?thesis by simp
    next
      case False
      with Cons.prems(4) have g: "g \<noteq> []" and c: "cur = join [32] g \<or> cur = 32 # join [32] g"
        by auto
      from c have s: "strip cur = strip (join [32] g)"
        by (auto simp: strip_space_Cons is_space_32)
      show ?thesis
      proof (cases "line = []")
        case True
        from False s Cons.prems(2) g
        have 2: "?chunks = map (\<lambda>g. strip (join [32] g)) (G @ [g @ [[]]])"
          by (simp add: strip_join_empty_line)
        from Cons.prems(3) have 3: "\<forall>g\<in>set (G @ [g @ [[]]]). g \<noteq> []" by simp
        from True have 4: "([] = [] \<and> line = []) \<or>
          ([] \<noteq> [] \<and> line \<noteq> [] \<and> (line = join [32] [] \<or> line = 32 # join [32] []))"
          by simp
        from Cons.IH [OF 1 2 3 4] True show ?thesis by simp
      next
        case l: False
        from False s Cons.prems(2)
        have 2: "?chunks = map (\<lambda>g. strip (join [32] g)) (G @ [g])" by simp
        from Cons.prems(3) g have 3: "\<forall>g\<in>set (G @ [g]). g \<noteq> []" by simp
        from l have 4: "([line] = [] \<and> line = []) \<or>
         ([line] \<noteq> [] \<and> line \<noteq> [] \<and> (line = join [32] [line] \<or> line = 32 # join [32] [line]))"
          by simp
        from Cons.IH [OF 1 2 3 4] show ?thesis by simp
      qed
    qed
  next
    case False
    with Cons.prems(1) have 1: "chunk_loop chunks (cur @ [32] @ line) lines = (chunks', cur')"
      by simp
    have 4: "(g @ [line] = [] \<and> cur @ [32] @ line = []) \<or>
       (g @ [line] \<noteq> [] \<and> cur @ [32] @ line \<noteq> [] \<and>
        (cur @ [32] @ line = join [32] (g @ [line]) \<or>
         cur @ [32] @ line = 32 # join [32] (g @ [line])))"
    proof (cases "g = []")
      case True
      with Cons.prems(4) show ?thesis by simp
    next
      case False
      with Cons.prems(4) show ?thesis by (auto simp: join_snoc)
    qed
    from Cons.IH [OF 1 Cons.prems(2,3) 4] show ?thesis by simp
  qed
qed

lemma chunk_text_groups:
  "\<exists>groups. concat groups = splitlines s \<and> (\<forall>g\<in>set groups. g \<noteq> [])
     \<and> chunk_text s = map (\<lambda>g. strip (join [32] g)) groups"
proof -
  obtain chunks cur where l: "chunk_loop [] [] (splitlines s) = (chunks, cur)"
    by (cases "chunk_loop [] [] (splitlines s)")
  have "\<exists>G' g'. concat G' @ g' = concat [] @ [] @ splitlines s
    \<and> chunks = map (\<lambda>g. strip (join [32] g)) G'
    \<and> (\<forall>g\<in>set G'. g \<noteq> [])
    \<and> ((g' = [] \<and> cur = []) \<or>
        (g' \<noteq> [] \<and> cur \<noteq> [] \<and> (cur = join [32] g' \<or> cur = 32 # join [32] g')))"
    by (rule chunk_loop_groups [OF l]) simp_all
  then obtain G g where G: "concat G @ g = splitlines s"
    "chunks = map (\<lambda>g. strip (join [32] g)) G" "\<forall>g\<in>set G. g \<noteq> []"
    "(g = [] \<and> cur = []) \<or>
        (g \<noteq> [] \<and> cur \<noteq> [] \<and> (cur = join [32] g \<or> cur = 32 # join [32] g))"
    by auto
  show ?thesis
  proof (cases "cur = []")
    case True
    with G(4) have "g = []" by auto
    with G True show ?thesis
      unfolding chunk_text_def l by auto
  next
    case False
    with G(4) have g: "g \<noteq> []" and c: "cur = join [32] g \<or> cur = 32 # join [32] g"
      by auto
    from c have "strip cur = strip (join [32] g)"
      by (auto simp: strip_space_Cons is_space_32)
    with False G g have "concat (G @ [g]) = splitlines s \<and> (\<forall>g\<in>set (G @ [g]). g \<noteq> [])
     \<and> chunk_text s = map (\<lambda>g. strip (join [32] g)) (G @ [g])"
      unfolding chunk_text_def l by simp
    then show ?thesis by blast
  qed
qed

lemma splitlines_from_line:
  assumes "\<forall>c\<in>set a. \<not> is_linebreak c"
  shows "splitlines_from [] (a @ 10 # rest) = a # splitlines_from [] rest"
proof -
  have "splitlines_from [] (a @ 10 # rest) = splitlines_from a (10 # rest)"
    using splitlines_from_nobreak_append [OF assms, of "[]" "10 # rest"] by simp
  also have "\<dots> = a # splitlines_from [] rest"
    by (simp add: splitlines_from_Cons is_linebreak_def del: splitlines_from.simps)
  finally show ?thesis .
qed

lemma hola_mundo_chunks:
  "splitlines (ascii ''Hola'' @ 10 # ascii ''mundo'') = [ascii ''Hola'', ascii ''mundo'']"
  "chunk_text (ascii ''Hola'' @ 10 # ascii ''mundo'') = [ascii ''Hola mundo'']"
proof -
  show l: "splitlines (ascii ''Hola'' @ 10 # ascii ''mundo'') = [ascii ''Hola'', ascii ''mundo'']"
    by (rule splitlines_two) (simp_all add: ascii_def is_linebreak_def)
  have "strip (32 # ascii ''Hola'' @ 32 # ascii ''mundo'') = ascii ''Hola mundo''"
    by (simp add: strip_def ascii_def is_space_def)
  then show "chunk_text (ascii ''Hola'' @ 10 # ascii ''mundo'') = [ascii ''Hola mundo'']"
    by (simp add: chunk_text_def l max_chunk_length_def) (simp add: ascii_def)
qed

lemma three_lines_chunks:
  "splitlines (replicate 300 97 @ 10 # replicate 100 98 @ 10 # replicate 300 99) =
     [replicate 300 97, replicate 100 98, replicate 300 99]"
  "chunk_text (replicate 300 97 @ 10 # replicate 100 98 @ 10 # replicate 300 99) =
     [replicate 300 97 @ 32 # replicate 100 98, replicate 300 99]"
proof -
  have "splitlines_from [] (replicate 300 99) = [replicate 300 99]"
    by (subst splitlines_from_nobreak) (simp_all add: is_linebreak_def)
  then show l: "splitlines (replicate 300 97 @ 10 # replicate 100 98 @ 10 # replicate 300 99) =
     [replicate 300 97, replicate 100 98, replicate 300 99]"
    by (simp add: splitlines_def splitlines_from_line is_linebreak_def)
  have "strip (replicate 300 97 @ 32 # replicate 100 98) = replicate 300 97 @ 32 # replicate 100 98"
    by (rule strip_trimmed) (simp_all add: is_space_def)
  then have a: "strip (32 # replicate 300 97 @ 32 # replicate 100 98) =
      replicate 300 97 @ 32 # replicate 100 98"
    by (simp add: strip_space_Cons is_space_32)
  have b: "strip (replicate 300 99) = replicate 300 99"
    by (rule strip_trimmed) (simp_all add: is_space_def)
  show "chunk_text (replicate 300 97 @ 10 # replicate 100 98 @ 10 # replicate 300 99) =
     [replicate 300 97 @ 32 # replicate 100 98, replicate 300 99]"
    by (simp add: chunk_text_def l max_chunk_length_def a b)
qed

text \<open>
  C5: with the backend that returns every chunk as it is, the output has the same
  content other than whitespace as the input, in the same order. The lines of the
  input fall into consecutive non-empty runs, every chunk is the lines of one run
  joined by single spaces and stripped, run by run in order, and for an input that
  is not blank the output is these chunks joined by two newlines.
\<close>

theorem identity_backend_content:
  "\<exists>out groups.
     fst (translate_text (chunkwise (\<lambda>c. c)) (PStr s)) = PStr out \<and> nonws out = nonws s
     \<and> concat groups = splitlines s \<and> [] \<notin> set groups
     \<and> chunk_text s = map (\<lambda>g. strip (join [32] g)) groups
     \<and> ((\<exists>c\<in>set s. \<not> is_space c) \<longrightarrow>
          out = join [10, 10] (chunk_text s)
          \<and> out = join [10, 10] (map (\<lambda>g. strip (join [32] g)) groups))"
proof -
  obtain groups where g: "concat groups = splitlines s" "\<forall>g\<in>set groups. g \<noteq> []"
    "chunk_text s = map (\<lambda>g. strip (join [32] g)) groups"
    using chunk_text_groups [of s] by blast
  from g(2) have n: "[] \<notin> set groups" by blast
  show ?thesis
  proof (cases "\<forall>c\<in>set s. is_space c")
    case True
    then have "translate_text (chunkwise (\<lambda>c. c)) (PStr s) = (PStr s, [])"
      by (simp add: translate_text_blank)
    with True g(1,3) n show ?thesis by auto
  next
    case False
    then have "s \<noteq> []" by auto
    with False have "translate_text (chunkwise (\<lambda>c. c)) (PStr s) =
        (PStr (join [10, 10] (chunk_text s)), [chunk_text s])"
      by (simp add: translate_text_nonblank reassemble_def translate_batch_chunkwise)
    moreover have "nonws (join [10, 10] (chunk_text s)) = nonws s"
      by (simp add: nonws_join is_space_10 nonws_chunk_text)
    ultimately have "fst (translate_text (chunkwise (\<lambda>c. c)) (PStr s)) =
          PStr (join [10, 10] (chunk_text s))
        \<and> nonws (join [10, 10] (chunk_text s)) = nonws s
        \<and> concat groups = splitlines s \<and> [] \<notin> set groups
        \<and> chunk_text s = map (\<lambda>g. strip (join [32] g)) groups
        \<and> ((\<exists>c\<in>set s. \<not> is_space c) \<longrightarrow>
          join [10, 10] (chunk_text s) = join [10, 10] (chunk_text s)
          \<and> join [10, 10] (chunk_text s) = join [10, 10] (map (\<lambda>g. strip (join [32] g)) groups))"
      using g(1,3) n by simp
    then show ?thesis by blast
  qed
qed

theorem identity_backend_content_witness:
  "fst (translate_text (chunkwise (\<lambda>c. c)) (PStr (ascii ''Hola'' @ 10 # ascii ''mundo'')))
     = PStr (ascii ''Hola mundo'')
   \<and> nonws (ascii ''Hola mundo'') = nonws (ascii ''Hola'' @ 10 # ascii ''mundo'')
   \<and> (\<exists>groups. concat groups = [ascii ''Hola'', ascii ''mundo''] \<and> [] \<notin> set groups
         \<and> [ascii ''Hola mundo''] = map (\<lambda>g. strip (join [32] g)) groups)
   \<and> fst (translate_text (chunkwise (\<lambda>c. c))
        (PStr (replicate 300 97 @ 10 # replicate 100 98 @ 10 # replicate 300 99)))
     = PStr (replicate 300 97 @ 32 # replicate 100 98 @ [10, 10] @ replicate 300 99)
   \<and> nonws (replicate 300 97 @ 32 # replicate 100 98 @ [10, 10] @ replicate 300 99)
     = nonws (replicate 300 97 @ 10 # replicate 100 98 @ 10 # replicate 300 99)
   \<and> (\<exists>groups. concat groups = [replicate 300 97, replicate 100 98, replicate 300 99]
         \<and> [] \<notin> set groups
         \<and> [replicate 300 97 @ 32 # replicate 100 98, replicate 300 99] =
             map (\<lambda>g. strip (join [32] g)) groups)"
proof -
  let ?F = "\<lambda>g. strip (join [32] g)"
  let ?s = "ascii ''Hola'' @ 10 # ascii ''mundo''"
  have n: "\<exists>c\<in>set ?s. \<not> is_space c"
    by (simp add: ascii_def is_space_def)
  from identity_backend_content [of ?s]
  obtain out where "\<exists>groups.
    fst (translate_text (chunkwise (\<lambda>c. c)) (PStr ?s)) = PStr out \<and> nonws out = nonws ?s
     \<and> concat groups = splitlines ?s \<and> [] \<notin> set groups
     \<and> chunk_text ?s = map ?F groups
     \<and> ((\<exists>c\<in>set ?s. \<not> is_space c) \<longrightarrow>
          out = join [10, 10] (chunk_text ?s) \<and> out = join [10, 10] (map ?F groups))"
    by (rule exE)
  then obtain groups where o:
    "fst (translate_text (chunkwise (\<lambda>c. c)) (PStr ?s)) = PStr out \<and> nonws out = nonws ?s
     \<and> concat groups = splitlines ?s \<and> [] \<notin> set groups
     \<and> chunk_text ?s = map ?F groups
     \<and> ((\<exists>c\<in>set ?s. \<not> is_space c) \<longrightarrow>
          out = join [10, 10] (chunk_text ?s) \<and> out = join [10, 10] (map ?F groups))"
    by (rule exE)
  from o n have "out = join [10, 10] (chunk_text ?s)"
    by (elim conjE impE) assumption+
  then have out: "out = ascii ''Hola mundo''"
    by (simp only: hola_mundo_chunks join.simps)
  from o have a1: "fst (translate_text (chunkwise (\<lambda>c. c)) (PStr ?s)) = PStr (ascii ''Hola mundo'')"
    unfolding out by (elim conjE)
  from o have a2: "nonws (ascii ''Hola mundo'') = nonws ?s"
    unfolding out by (elim conjE)
  from o have "concat groups = [ascii ''Hola'', ascii ''mundo''] \<and> [] \<notin> set groups
         \<and> [ascii ''Hola mundo''] = map ?F groups"
    unfolding hola_mundo_chunks by (elim conjE, intro conjI) assumption+
  then have a3: "\<exists>groups. concat groups = [ascii ''Hola'', ascii ''mundo''] \<and> [] \<notin> set groups
         \<and> [ascii ''Hola mundo''] = map ?F groups"
    by (rule exI)
  let ?t = "replicate 300 97 @ 10 # replicate 100 98 @ 10 # replicate 300 99"
  let ?o = "replicate 300 97 @ 32 # replicate 100 98 @ [10, 10] @ replicate 300 99"
  have m: "\<exists>c\<in>set ?t. \<not> is_space c"
    by (simp add: is_space_def)
  from identity_backend_content [of ?t]
  obtain out' where "\<exists>groups'.
    fst (translate_text (chunkwise (\<lambda>c. c)) (PStr ?t)) = PStr out' \<and> nonws out' = nonws ?t
     \<and> concat groups' = splitlines ?t \<and> [] \<notin> set groups'
     \<and> chunk_text ?t = map ?F groups'
     \<and> ((\<exists>c\<in>set ?t. \<not> is_space c) \<longrightarrow>
          out' = join [10, 10] (chunk_text ?t) \<and> out' = join [10, 10] (map ?F groups'))"
    by (rule exE)
  then obtain groups' where p:
    "fst (translate_text (chunkwise (\<lambda>c. c)) (PStr ?t)) = PStr out' \<and> nonws out' = nonws ?t
     \<and> concat groups' = splitlines ?t \<and> [] \<notin> set groups'
     \<and> chunk_text ?t = map ?F groups'
     \<and> ((\<exists>c\<in>set ?t. \<not> is_space c) \<longrightarrow>
          out' = join [10, 10] (chunk_text ?t) \<and> out' = join [10, 10] (map ?F groups'))"
    by (rule exE)
  from p m have "out' = join [10, 10] (chunk_text ?t)"
    by (elim conjE impE) assumption+
  then have out': "out' = ?o"
    by (simp only: three_lines_chunks join.simps append.simps append_assoc)
  from p have b1: "fst (translate_text (chunkwise (\<lambda>c. c)) (PStr ?t)) = PStr ?o"
    unfolding out' by (elim conjE)
  from p have b2: "nonws ?o = nonws ?t"
    unfolding out' by (elim conjE)
  from p have "concat groups' = [replicate 300 97, replicate 100 98, replicate 300 99]
         \<and> [] \<notin> set groups'
         \<and> [replicate 300 97 @ 32 # replicate 100 98, replicate 300 99] = map ?F groups'"
    unfolding three_lines_chunks by (elim conjE, intro conjI) assumption+
  then have b3: "\<exists>groups. concat groups = [replicate 300 97, replicate 100 98, replicate 300 99]
         \<and> [] \<notin> set groups
         \<and> [replicate 300 97 @ 32 # replicate 100 98, replicate 300 99] = map ?F groups"
    by (rule exI)
  from a1 a2 a3 b1 b2 b3 show ?thesis
    by (intro conjI)
qed

section \<open>Empty chunks\<close>

text \<open>
  What holds of the chunks of every text: there is a chunk unless the text is empty,
  and every chunk is stripped.
\<close>

lemma dropWhile_unchanged: "xs = [] \<or> \<not> P (hd xs) \<Longrightarrow> dropWhile P xs = xs"
  by (cases xs) auto

lemma strip_idem: "strip (strip s) = strip s"
proof -
  let ?t = "dropWhile is_space s"
  let ?u = "rev (dropWhile is_space (rev ?t))"
  have t: "?t = [] \<or> \<not> is_space (hd ?t)"
    using hd_dropWhile [of is_space s] by blast
  have "rev ?t = takeWhile is_space (rev ?t) @ dropWhile is_space (rev ?t)"
    by simp
  then have "rev (rev ?t) = rev (takeWhile is_space (rev ?t) @ dropWhile is_space (rev ?t))"
    by (rule arg_cong)
  then have "?t = ?u @ rev (takeWhile is_space (rev ?t))"
    by (simp only: rev_rev_ident rev_append)
  then have "?u \<noteq> [] \<Longrightarrow> hd ?t = hd ?u"
    by (metis hd_append2)
  moreover have "?u \<noteq> [] \<Longrightarrow> ?t \<noteq> []"
  proof
    assume "?u \<noteq> []" and e: "?t = []"
    from e have "?u = []" by (simp only: rev.simps dropWhile.simps)
    with \<open>?u \<noteq> []\<close> show False by contradiction
  qed
  ultimately have "?u = [] \<or> \<not> is_space (hd ?u)"
    using t by metis
  then have "dropWhile is_space ?u = ?u"
    by (rule dropWhile_unchanged)
  then have "strip ?u = rev (dropWhile is_space (rev ?u))"
    by (simp only: strip_def)
  also have "\<dots> = ?u"
    by (simp only: rev_rev_ident dropWhile_idem)
  finally show ?thesis
    by (simp only: strip_def)
qed

lemma splitlines_from_nonempty: "cur \<noteq> [] \<or> s \<noteq> [] \<Longrightarrow> splitlines_from cur s \<noteq> []"
proof (induction s arbitrary: cur)
  case Nil
  then show ?case by simp
next
  case (Cons c s)
  then show ?case
    by (simp add: splitlines_from_Cons del: splitlines_from.simps)
qed

lemma chunk_loop_nonempty:
  assumes "chunk_loop chunks cur lines = (chunks', cur')"
    and "chunks \<noteq> [] \<or> cur \<noteq> [] \<or> lines \<noteq> []"
  shows "chunks' \<noteq> [] \<or> cur' \<noteq> []"
  using assms
proof (induction lines arbitrary: chunks cur)
  case Nil
  then show ?case by simp
next
  case (Cons line lines)
  show ?case
  proof (cases "length cur + length line + 1 > max_chunk_length")
    case True
    let ?chunks = "if cur \<noteq> [] then chunks @ [strip cur] else chunks"
    from True Cons.prems(1) have 1: "chunk_loop ?chunks line lines = (chunks', cur')"
      by simp
    from True have "cur \<noteq> [] \<or> line \<noteq> []"
      by (auto simp: max_chunk_length_def)
    then have "?chunks \<noteq> [] \<or> line \<noteq> [] \<or> lines \<noteq> []" by auto
    with Cons.IH [OF 1] show ?thesis .
  next
    case False
    with Cons.prems(1) have 1: "chunk_loop chunks (cur @ [32] @ line) lines = (chunks', cur')"
      by simp
    from Cons.IH [OF 1] show ?thesis by simp
  qed
qed

lemma chunk_text_Nil_iff: "chunk_text s = [] \<longleftrightarrow> s = []"
proof
  assume e: "chunk_text s = []"
  show "s = []"
  proof (rule ccontr)
    assume "s \<noteq> []"
    then have n: "splitlines s \<noteq> []"
      by (simp add: splitlines_def splitlines_from_nonempty)
    obtain chunks cur where l: "chunk_loop [] [] (splitlines s) = (chunks, cur)"
      by (cases "chunk_loop [] [] (splitlines s)")
    from chunk_loop_nonempty [OF l] n have "chunks \<noteq> [] \<or> cur \<noteq> []" by simp
    with e show False
      unfolding chunk_text_def l by (auto split: if_splits)
  qed
next
  assume "s = []"
  then show "chunk_text s = []"
    by (simp add: chunk_text_def splitlines_def)
qed

lemma chunk_loop_trimmed:
  assumes "chunk_loop chunks cur lines = (chunks', cur')"
    and "\<forall>c\<in>set chunks. strip c = c"
  shows "\<forall>c\<in>set chunks'. strip c = c"
  using assms
proof (induction lines arbitrary: chunks cur)
  case Nil
  then show ?case by simp
next
  case (Cons line lines)
  show ?case
  proof (cases "length cur + length line + 1 > max_chunk_length")
    case True
    let ?chunks = "if cur \<noteq> [] then chunks @ [strip cur] else chunks"
    from True Cons.prems(1) have 1: "chunk_loop ?chunks line lines = (chunks', cur')"
      by simp
    from Cons.prems(2) have "\<forall>c\<in>set ?chunks. strip c = c"
      by (simp add: strip_idem)
    with Cons.IH [OF 1] show ?thesis .
  next
    case False
    with Cons.prems(1) have 1: "chunk_loop chunks (cur @ [32] @ line) lines = (chunks', cur')"
      by simp
    from Cons.IH [OF 1 Cons.prems(2)] show ?thesis .
  qed
qed

lemma chunk_text_trimmed: "c \<in> set (chunk_text s) \<Longrightarrow> strip c = c"
proof -
  assume c: "c \<in> set (chunk_text s)"
  obtain chunks cur where l: "chunk_loop [] [] (splitlines s) = (chunks, cur)"
    by (cases "chunk_loop [] [] (splitlines s)")
  from chunk_loop_trimmed [OF l] have "\<forall>c\<in>set chunks. strip c = c" by simp
  with c show ?thesis
    unfolding chunk_text_def l by (auto simp: strip_idem split: if_splits)
qed

text \<open>
  C4 says that no chunk is the empty string. The loop tests \<open>current_chunk\<close>
  before it strips it, so a buffer of whitespace alone is flushed as an empty chunk:
  an empty first line followed by a line of 449 characters gives the chunks
  \<open>[\<close>empty string, the line\<open>]\<close>, and the empty string is passed to the backend.
\<close>

theorem chunk_text_empty_chunk:
  "chunk_text (10 # replicate 449 97) = [[], replicate 449 97]
   \<and> snd (translate_text (chunkwise stub) (PStr (10 # replicate 449 97))) =
       [[[], replicate 449 97]]"
proof -
  have "chunk_text ([] @ 10 # replicate 449 97) = [strip [], strip (replicate 449 97)]"
    by (rule chunk_text_two_lines) (simp_all add: is_linebreak_def)
  moreover have "strip (replicate 449 97) = replicate 449 97"
    by (rule strip_trimmed) (simp_all add: is_space_def)
  ultimately have c: "chunk_text (10 # replicate 449 97) = [[], replicate 449 97]"
    by (simp add: strip_Nil)
  have "\<not> (\<forall>c\<in>set (py_str (PStr (10 # replicate 449 97))). is_space c)"
    by (simp add: is_space_def)
  then have "snd (translate_text (chunkwise stub) (PStr (10 # replicate 449 97))) =
       [chunk_text (10 # replicate 449 97)]"
    by (subst translate_text_nonblank) simp_all
  with c show ?thesis by simp
qed

theorem chunk_text_empty_chunk_witness:
  "[] \<in> set (chunk_text (10 # replicate 449 97))
   \<and> length (chunk_text (10 # replicate 449 97)) = 2
   \<and> hd (snd (translate_text (chunkwise stub) (PStr (10 # replicate 449 97)))) ! 0 = []"
proof -
  from chunk_text_empty_chunk
  have "chunk_text (10 # replicate 449 97) = [[], replicate 449 97]"
    and "snd (translate_text (chunkwise stub) (PStr (10 # replicate 449 97))) =
       [[[], replicate 449 97]]"
    by blast+
  then show ?thesis by simp
qed

end
